theory Spec2Isabelle
  imports Main "HOL-Library.Sublist"
begin

section \<open>JavaScript values and strings\<close>

text \<open>
  The module \<^verbatim>\<open>packages/api-docs-builder/buildApiUtils.ts\<close> works on strings. A string is
  modelled as a \<^typ>\<open>string\<close> (a list of 8-bit characters); the line terminators U+2028
  and U+2029 lie outside this alphabet. A value that may be \<^verbatim>\<open>null\<close> or
  \<^verbatim>\<open>undefined\<close> is a \<open>jsval\<close>.
\<close>

datatype jsval = JNull | JUndefined | JString string

text \<open>
  \<^verbatim>\<open>search pat s\<close> is the offset of the first occurrence of \<^verbatim>\<open>pat\<close> in \<^verbatim>\<open>s\<close>, scanning
  from the left as \<^verbatim>\<open>String.prototype.indexOf\<close> and \<^verbatim>\<open>String.prototype.replace\<close> do.
\<close>

fun search :: "string \<Rightarrow> string \<Rightarrow> nat option" where
  "search pat [] = (if pat = [] then Some 0 else None)"
| "search pat (c # cs) =
     (if prefix pat (c # cs) then Some 0 else map_option Suc (search pat cs))"

text \<open>\<^verbatim>\<open>s.indexOf(pat)\<close>: the offset, or \<open>-1\<close> when there is no occurrence.\<close>

definition indexOf :: "string \<Rightarrow> string \<Rightarrow> int" where
  "indexOf s pat = (case search pat s of None \<Rightarrow> - 1 | Some i \<Rightarrow> int i)"

text \<open>
  \<^verbatim>\<open>s.replace(pat, rep)\<close> with a string pattern: only the first occurrence is replaced. None
  of the replacement texts of the module contains a \<^verbatim>\<open>$\<close>, so no replacement pattern is
  expanded.
\<close>

definition replace :: "string \<Rightarrow> string \<Rightarrow> string \<Rightarrow> string" where
  "replace s pat rep =
     (case search pat s of
        None \<Rightarrow> s
      | Some i \<Rightarrow> take i s @ rep @ drop (i + length pat) s)"

text \<open>\<^verbatim>\<open>s.startsWith(p)\<close>.\<close>

definition startsWith :: "string \<Rightarrow> string \<Rightarrow> bool" where
  "startsWith s p = prefix p s"

text \<open>\<^verbatim>\<open>s.replace(/^p/, '')\<close> for a literal \<^verbatim>\<open>p\<close>: the anchored pattern only matches at offset 0.\<close>

definition replace_anchored :: "string \<Rightarrow> string \<Rightarrow> string \<Rightarrow> string" where
  "replace_anchored s p rep = (if prefix p s then rep @ drop (length p) s else s)"

text \<open>\<^verbatim>\<open>s.split(sep)\<close> for a separator of one character; the result is never empty.\<close>

fun split :: "string \<Rightarrow> char \<Rightarrow> string list" where
  "split [] sep = [[]]"
| "split (c # cs) sep =
     (if c = sep then [] # split cs sep
      else (case split cs sep of
              [] \<Rightarrow> [[c]]
            | p # ps \<Rightarrow> (c # p) # ps))"

text \<open>
  An array element interpolated into a template literal: \<^verbatim>\<open>`${xs[i]}`\<close> is the text
  \<^verbatim>\<open>undefined\<close> when the index is out of range.
\<close>

definition interpolate_at :: "string list \<Rightarrow> nat \<Rightarrow> string" where
  "interpolate_at xs i = (if i < length xs then xs ! i else ''undefined'')"

section \<open>fixPathname\<close>

text \<open>
  \<^verbatim>\<open>replaceComponentLinks\<close> is imported from \<^verbatim>\<open>./utils/replaceUrl\<close>; it is a parameter of
  the model.
\<close>

definition fixPathname :: "(string \<Rightarrow> string) \<Rightarrow> string \<Rightarrow> string" where
  "fixPathname replaceComponentLinks pathname =
     (if startsWith pathname ''/material'' then
        replaceComponentLinks (replace_anchored pathname ''/material'' '''' @ ''/'')
      else if startsWith pathname ''/joy'' then
        replace (replaceComponentLinks (replace_anchored pathname ''/joy'' '''' @ ''/''))
          ''material-ui'' ''joy-ui''
      else if startsWith pathname ''/base'' then
        replace (replace pathname ''/base/'' ''/base-ui/'') ''/components/'' ''/react-'' @ ''/''
      else
        replace pathname ''/components/'' ''/react-'' @ ''/'')"

section \<open>getMuiName\<close>

definition getMuiName :: "string \<Rightarrow> string" where
  "getMuiName name = ''Mui'' @ replace name ''Styled'' ''''"

section \<open>getApiPath\<close>

record demo =
  demoPageTitle :: string
  demoPathname :: string

text \<open>
  \<^verbatim>\<open>kebabCase\<close> is lodash's; it is a parameter of the model. The result is \<open>None\<close> for
  \<^verbatim>\<open>null\<close>.
\<close>

definition getApiPath :: "(string \<Rightarrow> string) \<Rightarrow> demo list \<Rightarrow> string \<Rightarrow> string option" where
  "getApiPath kebabCase demos name =
     (if length demos > 0 then
        (let cleanedDemosPathname = interpolate_at (split (demoPathname (demos ! 0)) (CHR ''#'')) 0
         in Some (cleanedDemosPathname
                  @ (if startsWith name ''use'' then ''hooks-api'' else ''components-api'')
                  @ ''/#'' @ kebabCase name))
      else None)"

section \<open>Regular expressions\<close>

text \<open>
  The regular expression literals of the module, as syntax trees, and the backtracking
  matcher of ECMAScript on them: alternatives are tried from the left, quantifiers are greedy
  and give back one character at a time. \<open>Star\<close> and \<open>Plus\<close> are applied to single-character
  atoms only, which is all the module needs. \<open>Dot\<close> is \<^verbatim>\<open>.\<close> (any character but a line
  terminator), \<open>NotChr c\<close> is the class \<^verbatim>\<open>[^c]\<close>.
\<close>

datatype atom = Dot | NotChr char

fun atom_ok :: "atom \<Rightarrow> char \<Rightarrow> bool" where
  "atom_ok Dot x = (x \<noteq> CHR 0x0A \<and> x \<noteq> CHR 0x0D)"
| "atom_ok (NotChr c) x = (x \<noteq> c)"

datatype regex =
    Lit string
  | Seq regex regex
  | Alt regex regex
  | Star atom
  | Plus atom
  | Opt regex
  | Group nat regex

text \<open>
  The matcher runs a list of pending instructions, its continuation: \<open>Match r\<close> matches
  \<open>r\<close> next, \<open>Close n s0\<close> ends capture group \<open>n\<close>, which began when the remaining input
  was \<open>s0\<close>. Captures are the matched texts by group number.
\<close>

datatype instr = Match regex | Close nat string

type_synonym captures = "nat \<Rightarrow> string option"

fun weight_re :: "regex \<Rightarrow> nat" where
  "weight_re (Lit p) = 1"
| "weight_re (Seq r1 r2) = 1 + weight_re r1 + weight_re r2"
| "weight_re (Alt r1 r2) = 1 + weight_re r1 + weight_re r2"
| "weight_re (Star a) = 1"
| "weight_re (Plus a) = 2"
| "weight_re (Opt r) = 1 + weight_re r"
| "weight_re (Group n r) = 2 + weight_re r"

fun weight_instr :: "instr \<Rightarrow> nat" where
  "weight_instr (Match r) = weight_re r"
| "weight_instr (Close n s0) = 1"

definition weight :: "instr list \<Rightarrow> nat" where
  "weight k = sum_list (map weight_instr k)"

function run :: "instr list \<Rightarrow> string \<Rightarrow> captures \<Rightarrow> captures option" where
  "run [] s c = Some c"
| "run (Close n s0 # k) s c = run k s (c(n \<mapsto> take (length s0 - length s) s0))"
| "run (Match (Lit p) # k) s c =
     (if prefix p s then run k (drop (length p) s) c else None)"
| "run (Match (Seq r1 r2) # k) s c = run (Match r1 # Match r2 # k) s c"
| "run (Match (Alt r1 r2) # k) s c =
     (case run (Match r1 # k) s c of
        Some c' \<Rightarrow> Some c'
      | None \<Rightarrow> run (Match r2 # k) s c)"
| "run (Match (Opt r) # k) s c =
     (case run (Match r # k) s c of
        Some c' \<Rightarrow> Some c'
      | None \<Rightarrow> run k s c)"
| "run (Match (Star a) # k) [] c = run k [] c"
| "run (Match (Star a) # k) (x # xs) c =
     (if atom_ok a x then
        (case run (Match (Star a) # k) xs c of
           Some c' \<Rightarrow> Some c'
         | None \<Rightarrow> run k (x # xs) c)
      else run k (x # xs) c)"
| "run (Match (Plus a) # k) [] c = None"
| "run (Match (Plus a) # k) (x # xs) c =
     (if atom_ok a x then run (Match (Star a) # k) xs c else None)"
| "run (Match (Group n r) # k) s c = run (Match r # Close n s # k) s c"
  by pat_completeness auto
termination
  by (relation "measures [\<lambda>(k, s, c). weight k, \<lambda>(k, s, c). length s]")
     (auto simp: weight_def)

text \<open>
  \<^verbatim>\<open>s.match(re)\<close> for a regular expression without the \<^verbatim>\<open>g\<close> flag: the first start offset
  from the left at which the matcher succeeds; \<open>None\<close> is \<^verbatim>\<open>null\<close>. Group 0 is the whole
  match.
\<close>

fun exec_from :: "regex \<Rightarrow> string \<Rightarrow> captures option" where
  "exec_from r [] = run [Match (Group 0 r)] [] Map.empty"
| "exec_from r (x # xs) =
     (case run [Match (Group 0 r)] (x # xs) Map.empty of
        Some c \<Rightarrow> Some c
      | None \<Rightarrow> exec_from r xs)"

definition match :: "string \<Rightarrow> regex \<Rightarrow> captures option" where
  "match s r = exec_from r s"

text \<open>A group of a match: \<^verbatim>\<open>undefined\<close> when the group took no part in it.\<close>

definition group :: "captures \<Rightarrow> nat \<Rightarrow> jsval" where
  "group m n = (case m n of None \<Rightarrow> JUndefined | Some v \<Rightarrow> JString v)"

fun seqs :: "regex list \<Rightarrow> regex" where
  "seqs [] = Lit []"
| "seqs [r] = r"
| "seqs (r # rs) = Seq r (seqs rs)"

section \<open>extractPackageFile\<close>

text \<open>\<^verbatim>\<open>path.sep\<close> is fixed by the platform.\<close>

datatype platform = Posix | Win32

fun path_sep :: "platform \<Rightarrow> char" where
  "path_sep Posix = CHR ''/''"
| "path_sep Win32 = CHR 0x5C"

text \<open>
  \<^verbatim>\<open>/.*\/packages.*\/(?<packagePath>[^/]+)\/src\/(.*\/)?(?<name>[^/]+)\.(js|tsx|ts|d\.ts)/\<close>:
  \<^verbatim>\<open>packagePath\<close> is group 1 and \<^verbatim>\<open>name\<close> is group 3.
\<close>

definition packageFile_re :: regex where
  "packageFile_re = seqs
     [Star Dot, Lit ''/packages'', Star Dot, Lit ''/'',
      Group 1 (Plus (NotChr (CHR ''/''))),
      Lit ''/src/'',
      Opt (Group 2 (Seq (Star Dot) (Lit ''/''))),
      Group 3 (Plus (NotChr (CHR ''/''))),
      Lit ''.'',
      Group 4 (Alt (Lit ''js'') (Alt (Lit ''tsx'') (Alt (Lit ''ts'') (Lit ''d.ts''))))]"

record package_file =
  packagePath :: jsval
  name :: jsval
  muiPackage :: jsval

text \<open>
  \<^verbatim>\<open>filePath.replace(new RegExp(`\\${path.sep}`, 'g'), '/')\<close> replaces every separator.
  \<^verbatim>\<open>result.packagePath?.replace('x-', 'mui-')\<close> is \<^verbatim>\<open>undefined\<close> unless \<^verbatim>\<open>packagePath\<close> is
  a string.
\<close>

definition replace_sep :: "platform \<Rightarrow> string \<Rightarrow> string" where
  "replace_sep os filePath = map (\<lambda>c. if c = path_sep os then CHR ''/'' else c) filePath"

definition extractPackageFile :: "platform \<Rightarrow> string \<Rightarrow> package_file" where
  "extractPackageFile os filePath0 =
     (let filePath = replace_sep os filePath0;
          m = match filePath packageFile_re;
          result_packagePath = (case m of Some c \<Rightarrow> group c 1 | None \<Rightarrow> JNull);
          result_name = (case m of Some c \<Rightarrow> group c 3 | None \<Rightarrow> JNull)
      in \<lparr>packagePath = result_packagePath,
          name = result_name,
          muiPackage =
            (case result_packagePath of
               JString p \<Rightarrow> JString (replace p ''x-'' ''mui-'')
             | _ \<Rightarrow> JUndefined)\<rparr>)"

section \<open>parseFile\<close>

text \<open>
  The filesystem maps a filename to the text of the file. \<^verbatim>\<open>fs.readFileSync\<close> throws when
  there is no such file. \<^verbatim>\<open>getLineFeed\<close> is imported from another package; it is a
  parameter of the model.
\<close>

type_synonym filesystem = "string \<Rightarrow> string option"

datatype error = ENOENT string | Error string

definition readFileSync :: "filesystem \<Rightarrow> string \<Rightarrow> error + string" where
  "readFileSync fs filename =
     (case fs filename of None \<Rightarrow> Inl (ENOENT filename) | Some text \<Rightarrow> Inr text)"

record parsed_file =
  src :: string
  shouldSkip :: bool
  spread :: bool
  EOL :: string
  inheritedComponent :: jsval

definition parseFile :: "(string \<Rightarrow> string) \<Rightarrow> filesystem \<Rightarrow> string \<Rightarrow> error + parsed_file" where
  "parseFile getLineFeed fs filename =
     (case readFileSync fs filename of
        Inl e \<Rightarrow> Inl e
      | Inr text \<Rightarrow>
          Inr \<lparr>src = text,
               shouldSkip =
                 (indexOf filename ''internal'' \<noteq> - 1 \<or>
                  match text (Lit ''@ignore - internal component.'') \<noteq> None \<or>
                  match text (Lit ''@ignore - internal hook.'') \<noteq> None \<or>
                  match text (Lit ''@ignore - do not document.'') \<noteq> None),
               spread = (match text (Lit '' = exactProp('') = None),
               EOL = getLineFeed text,
               inheritedComponent =
                 (case match text (Seq (Lit ''// @inheritedComponent '') (Group 1 (Star Dot))) of
                    None \<Rightarrow> JUndefined
                  | Some c \<Rightarrow> group c 1)\<rparr>)"

section \<open>writePrettifiedFile\<close>

text \<open>
  \<^verbatim>\<open>prettier.resolveConfig.sync\<close>, \<^verbatim>\<open>prettier.format\<close> and \<^verbatim>\<open>fs.writeFileSync\<close> are
  parameters of the model; each may throw, and the first returns \<open>None\<close> for \<^verbatim>\<open>null\<close>.
  \<^verbatim>\<open>fs.writeFileSync\<close> gets the filesystem, the filename, the text and the write options
  (keys to values, such as \<^verbatim>\<open>encoding\<close> and \<^verbatim>\<open>flag\<close>), and returns its outcome and the
  filesystem it leaves. The options it gets are \<^verbatim>\<open>{ encoding: 'utf8', ...options }\<close>: the
  caller's keys override the default. The defaults of \<^verbatim>\<open>prettierConfigPath\<close> and
  \<^verbatim>\<open>options\<close> are \<^verbatim>\<open>DEFAULT_PRETTIER_CONFIG_PATH\<close>, computed from the working directory
  when the module is loaded, and the empty object. The function returns its outcome and
  the filesystem it leaves.
\<close>

type_synonym write_options = "string \<Rightarrow> string option"

definition writePrettifiedFile ::
  "(string \<Rightarrow> string \<Rightarrow> error + 'cfg option) \<Rightarrow> (string \<Rightarrow> 'cfg \<Rightarrow> string \<Rightarrow> error + string) \<Rightarrow>
   (filesystem \<Rightarrow> string \<Rightarrow> string \<Rightarrow> write_options \<Rightarrow> (error + unit) \<times> filesystem) \<Rightarrow>
   string \<Rightarrow> string \<Rightarrow> string \<Rightarrow> string option \<Rightarrow> write_options option \<Rightarrow> filesystem \<Rightarrow>
   (error + unit) \<times> filesystem" where
  "writePrettifiedFile resolveConfig_sync format writeFileSync DEFAULT_PRETTIER_CONFIG_PATH
       filename data prettierConfigPath_arg options_arg fs =
     (let prettierConfigPath =
            (case prettierConfigPath_arg of
               None \<Rightarrow> DEFAULT_PRETTIER_CONFIG_PATH
             | Some p \<Rightarrow> p);
          options = (case options_arg of None \<Rightarrow> Map.empty | Some opts \<Rightarrow> opts)
      in case resolveConfig_sync filename prettierConfigPath of
           Inl e \<Rightarrow> (Inl e, fs)
         | Inr None \<Rightarrow>
             (Inl (Error (''Could not resolve config for '' @ [CHR 0x27] @ filename @ [CHR 0x27]
                          @ '' using prettier config path '' @ [CHR 0x27] @ prettierConfigPath
                          @ [CHR 0x27] @ ''.'')), fs)
         | Inr (Some prettierConfig) \<Rightarrow>
             (case format data prettierConfig filename of
                Inl e \<Rightarrow> (Inl e, fs)
              | Inr formatted \<Rightarrow>
                  writeFileSync fs filename formatted
                    (Map.empty(''encoding'' \<mapsto> ''utf8'') ++ options)))"

section \<open>formatType\<close>

text \<open>
  \<^verbatim>\<open>prettier.format\<close> with the fixed options of \<open>formatType\<close> is a parameter of the model;
  it throws on text that is not valid TypeScript. \<^verbatim>\<open>.replace(/\n$/, '')\<close> removes one final
  line feed.
\<close>

definition strip_final_newline :: "string \<Rightarrow> string" where
  "strip_final_newline s = (if s \<noteq> [] \<and> last s = CHR 0x0A then butlast s else s)"

definition formatType :: "(string \<Rightarrow> error + string) \<Rightarrow> string \<Rightarrow> error + string" where
  "formatType format rawType =
     (if rawType = [] then Inr []
      else
        (let pfx = ''type FakeType = '';
             signatureWithTypeName = pfx @ rawType
         in case format signatureWithTypeName of
              Inl e \<Rightarrow> Inl e
            | Inr prettifiedSignatureWithTypeName \<Rightarrow>
                Inr (strip_final_newline (drop (length pfx) prettifiedSignatureWithTypeName))))"

section \<open>getSystemComponents and the state of the module\<close>



definition is_upper :: "char \<Rightarrow> bool" where
  "is_upper c = (c \<in> set ''ABCDEFGHIJKLMNOPQRSTUVWXYZ'')"









section \<open>Auxiliary definitions\<close>

text \<open>
  \<open>must_set n r\<close>: capture group \<open>n\<close> lies on every path through \<open>r\<close>, so it takes part in
  every match of \<open>r\<close>.
\<close>

fun must_set :: "nat \<Rightarrow> regex \<Rightarrow> bool" where
  "must_set n (Lit p) = False"
| "must_set n (Seq r1 r2) = (must_set n r1 \<or> must_set n r2)"
| "must_set n (Alt r1 r2) = (must_set n r1 \<and> must_set n r2)"
| "must_set n (Star a) = False"
| "must_set n (Plus a) = False"
| "must_set n (Opt r) = False"
| "must_set n (Group m r) = (m = n \<or> must_set n r)"

fun sets :: "nat \<Rightarrow> instr \<Rightarrow> bool" where
  "sets n (Match r) = must_set n r"
| "sets n (Close m s0) = (m = n)"

text \<open>
  The texts a regular expression denotes, \<open>lang\<close>, and the texts a continuation of the
  matcher denotes, \<open>klang\<close>; \<open>accepts k s\<close>: a text of the continuation begins \<open>s\<close>. These
  state what the matcher decides, apart from the order of its search.
\<close>

fun lang :: "regex \<Rightarrow> string set" where
  "lang (Lit p) = {p}"
| "lang (Seq r1 r2) = {u @ v | u v. u \<in> lang r1 \<and> v \<in> lang r2}"
| "lang (Alt r1 r2) = lang r1 \<union> lang r2"
| "lang (Star a) = {w. \<forall>x \<in> set w. atom_ok a x}"
| "lang (Plus a) = {w. w \<noteq> [] \<and> (\<forall>x \<in> set w. atom_ok a x)}"
| "lang (Opt r) = insert [] (lang r)"
| "lang (Group n r) = lang r"

fun klang :: "instr list \<Rightarrow> string set" where
  "klang [] = {[]}"
| "klang (Match r # k) = {u @ v | u v. u \<in> lang r \<and> v \<in> klang k}"
| "klang (Close n s0 # k) = klang k"

definition accepts :: "instr list \<Rightarrow> string \<Rightarrow> bool" where
  "accepts k s = (\<exists>u \<in> klang k. prefix u s)"

text \<open>
  lodash's \<^verbatim>\<open>kebabCase\<close> is not part of the module. Where an example needs a concrete
  function in its place, \<open>kebab_camel\<close> is used: it lower-cases a camelCase ASCII identifier
  and puts a hyphen before each capital letter after the first character.
\<close>

definition to_lower :: "char \<Rightarrow> char" where
  "to_lower c = (if is_upper c then char_of (of_char c + (32::nat)) else c)"

fun kebab_tail :: "string \<Rightarrow> string" where
  "kebab_tail [] = []"
| "kebab_tail (c # cs) =
     (if is_upper c then CHR ''-'' # to_lower c # kebab_tail cs else c # kebab_tail cs)"

definition kebab_camel :: "string \<Rightarrow> string" where
  "kebab_camel s = (case s of [] \<Rightarrow> [] | c # cs \<Rightarrow> to_lower c # kebab_tail cs)"

section \<open>Properties of the string primitives\<close>

lemma search_Some_prefix: "search pat s = Some i \<Longrightarrow> i \<le> length s \<and> prefix pat (drop i s)"
proof (induction s arbitrary: i)
  case Nil
  then show ?case by (simp split: if_splits)
next
  case (Cons c cs)
  show ?case
  proof (cases "prefix pat (c # cs)")
    case True
    with Cons.prems show ?thesis by simp
  next
    case False
    with Cons.prems obtain j where j: "search pat cs = Some j" "i = Suc j" by auto
    with Cons.IH [of j] show ?thesis by simp
  qed
qed

lemma search_Some_first: "search pat s = Some i \<Longrightarrow> j < i \<Longrightarrow> \<not> prefix pat (drop j s)"
proof (induction s arbitrary: i j)
  case Nil
  then show ?case by (simp split: if_splits)
next
  case (Cons c cs)
  show ?case
  proof (cases "prefix pat (c # cs)")
    case True
    with Cons.prems show ?thesis by simp
  next
    case False
    with Cons.prems obtain k where k: "search pat cs = Some k" "i = Suc k" by auto
    show ?thesis
    proof (cases j)
      case 0
      with False show ?thesis by simp
    next
      case (Suc j')
      with k Cons.prems Cons.IH [of k j'] show ?thesis by simp
    qed
  qed
qed

lemma search_None_iff: "search pat s = None \<longleftrightarrow> \<not> sublist pat s"
proof (induction s)
  case Nil
  then show ?case by simp
next
  case (Cons c cs)
  then show ?case by (auto simp: sublist_Cons_right)
qed

lemma search_Some_decomp:
  assumes "search pat s = Some i"
  shows "s = take i s @ pat @ drop (i + length pat) s"
proof -
  from search_Some_prefix [OF assms] obtain post where "drop i s = pat @ post"
    by (auto simp: prefix_def)
  moreover from this have "drop (i + length pat) s = post"
    by (metis add.commute append_eq_conv_conj drop_drop)
  ultimately show ?thesis by (metis append_take_drop_id)
qed

lemma replace_absent: "\<not> sublist pat s \<Longrightarrow> replace s pat rep = s"
  using search_None_iff [of pat s] by (simp add: replace_def)

lemma prefix_append_short: "prefix xs (ys @ zs) \<Longrightarrow> length xs \<le> length ys \<Longrightarrow> prefix xs ys"
  by (auto simp: prefix_append)

lemma search_first_occurrence:
  assumes "\<not> sublist pat (pre @ butlast pat)" "pat \<noteq> []"
  shows "search pat (pre @ pat @ post) = Some (length pre)"
  using assms
proof (induction pre)
  case Nil
  then obtain a l where al: "pat @ post = a # l" by (cases pat) auto
  then have "prefix pat (a # l)" by (metis prefixI)
  with al show ?case by simp
next
  case (Cons c pre)
  have np: "\<not> prefix pat ((c # pre) @ pat @ post)"
  proof
    assume "prefix pat ((c # pre) @ pat @ post)"
    have len: "length pat \<le> length ((c # pre) @ butlast pat)" by simp
    have "pat = butlast pat @ [last pat]" using Cons.prems(2) by simp
    then have "pat @ post = butlast pat @ last pat # post"
      by (metis append.assoc append_Cons append_Nil)
    then have eq: "(c # pre) @ pat @ post = ((c # pre) @ butlast pat) @ (last pat # post)"
      by simp
    have "prefix pat (((c # pre) @ butlast pat) @ (last pat # post))"
      using \<open>prefix pat ((c # pre) @ pat @ post)\<close> by (simp only: eq)
    then have "prefix pat ((c # pre) @ butlast pat)"
      using len by (rule prefix_append_short)
    then have "sublist pat ((c # pre) @ butlast pat)" by (rule prefix_imp_sublist)
    with Cons.prems(1) show False by simp
  qed
  have "\<not> sublist pat (pre @ butlast pat)"
    using Cons.prems(1) by (auto simp: sublist_Cons_right)
  with Cons.IH Cons.prems(2) have "search pat (pre @ pat @ post) = Some (length pre)" by simp
  with np show ?case by simp
qed

lemma replace_first_occurrence:
  assumes "\<not> sublist pat (pre @ butlast pat)" "pat \<noteq> []"
  shows "replace (pre @ pat @ post) pat rep = pre @ rep @ post"
  using search_first_occurrence [OF assms, of post] by (simp add: replace_def)

lemma split_nonempty: "split s sep \<noteq> []"
  by (induction s) (auto split: list.splits)

lemma hd_split: "hd (split s sep) = takeWhile (\<lambda>c. c \<noteq> sep) s"
proof (induction s)
  case Nil
  show ?case by simp
next
  case (Cons c cs)
  then show ?case using split_nonempty [of cs sep] by (auto split: list.splits)
qed

section \<open>Properties of the matcher\<close>

lemma run_sets:
  "run k s c = Some c' \<Longrightarrow> c n \<noteq> None \<or> (\<exists>i \<in> set k. sets n i) \<Longrightarrow> c' n \<noteq> None"
proof (induction k s c arbitrary: c' rule: run.induct)
  case (1 s c)
  then show ?case by simp
next
  case (2 m s0 k s c)
  from "2.prems"(1) have r: "run k s (c(m \<mapsto> take (length s0 - length s) s0)) = Some c'"
    by simp
  have "(c(m \<mapsto> take (length s0 - length s) s0)) n \<noteq> None \<or> (\<exists>i \<in> set k. sets n i)"
    using "2.prems"(2) by auto
  from "2.IH" [OF r this] show ?case .
next
  case (3 p k s c)
  then show ?case by (auto split: if_splits)
next
  case (4 r1 r2 k s c)
  then show ?case by auto
next
  case (5 r1 r2 k s c)
  then show ?case by (auto split: option.splits)
next
  case (6 r k s c)
  then show ?case by (auto split: option.splits)
next
  case (7 a k c)
  then show ?case by auto
next
  case (8 a k x xs c)
  then show ?case by (auto split: option.splits if_splits)
next
  case (9 a k c)
  then show ?case by simp
next
  case (10 a k x xs c)
  then show ?case by (auto split: if_splits)
next
  case (11 m r k s c)
  then show ?case by auto
qed

lemma exec_from_sets:
  "exec_from r s = Some c \<Longrightarrow> must_set n r \<Longrightarrow> c n \<noteq> None"
proof (induction s)
  case Nil
  then show ?case using run_sets [of "[Match (Group 0 r)]" "[]" Map.empty c n] by simp
next
  case (Cons x xs)
  then show ?case
    using run_sets [of "[Match (Group 0 r)]" "x # xs" Map.empty c n]
    by (auto split: option.splits)
qed

lemma packageFile_groups:
  assumes "match s packageFile_re = Some c"
  shows "\<exists>p n. c 1 = Some p \<and> c 3 = Some n"
proof -
  have "must_set 1 packageFile_re" "must_set 3 packageFile_re"
    by (simp_all add: packageFile_re_def)
  with assms exec_from_sets [of packageFile_re s c] show ?thesis
    by (auto simp: match_def)
qed

lemma exec_from_Lit: "exec_from (Lit p) s \<noteq> None \<longleftrightarrow> sublist p s"
proof (induction s)
  case Nil
  then show ?case by simp
next
  case (Cons x xs)
  then show ?case by (auto simp: sublist_Cons_right split: option.splits)
qed

lemma match_Lit: "match s (Lit p) \<noteq> None \<longleftrightarrow> sublist p s"
  by (simp only: match_def exec_from_Lit)

lemma indexOf_found: "indexOf s pat \<noteq> - 1 \<longleftrightarrow> sublist pat s"
  using search_None_iff [of pat s] by (auto simp: indexOf_def split: option.splits)

lemma replace_prefix: "prefix pat s \<Longrightarrow> replace s pat rep = rep @ drop (length pat) s"
  by (cases s) (auto simp: replace_def)

section \<open>formatType on the empty text\<close>

lemma formatType_empty: "formatType format [] = Inr []"
  by (simp add: formatType_def)

section \<open>The matcher decides the language of the pattern\<close>

lemma accepts_Nil: "accepts [] s"
  by (simp add: accepts_def)

lemma accepts_Close: "accepts (Close n s0 # k) s = accepts k s"
  by (simp add: accepts_def)

lemma accepts_Match:
  "accepts (Match r # k) s = (\<exists>u v. s = u @ v \<and> u \<in> lang r \<and> accepts k v)"
proof
  assume "accepts (Match r # k) s"
  then obtain u w t where "u \<in> lang r" "w \<in> klang k" "s = (u @ w) @ t"
    by (auto simp: accepts_def prefix_def)
  moreover from this have "accepts k (w @ t)"
    unfolding accepts_def by (intro bexI [of _ w]) simp_all
  ultimately have "s = u @ (w @ t) \<and> u \<in> lang r \<and> accepts k (w @ t)"
    by simp
  then show "\<exists>u v. s = u @ v \<and> u \<in> lang r \<and> accepts k v"
    by blast
next
  assume "\<exists>u v. s = u @ v \<and> u \<in> lang r \<and> accepts k v"
  then obtain u v w t where "s = u @ v" "u \<in> lang r" "w \<in> klang k" "v = w @ t"
    by (auto simp: accepts_def prefix_def)
  then have "u @ w \<in> klang (Match r # k)" "prefix (u @ w) s"
    by auto
  then show "accepts (Match r # k) s"
    unfolding accepts_def by blast
qed

lemma accepts_Lit:
  "accepts (Match (Lit p) # k) s = (prefix p s \<and> accepts k (drop (length p) s))"
  by (auto simp: accepts_Match prefix_def)

lemma accepts_Seq:
  "accepts (Match (Seq r1 r2) # k) s = accepts (Match r1 # Match r2 # k) s"
  by (simp add: accepts_Match) (metis append.assoc)

lemma accepts_Alt:
  "accepts (Match (Alt r1 r2) # k) s = (accepts (Match r1 # k) s \<or> accepts (Match r2 # k) s)"
  by (auto simp: accepts_Match)

lemma accepts_Opt:
  "accepts (Match (Opt r) # k) s = (accepts (Match r # k) s \<or> accepts k s)"
  by (auto simp: accepts_Match)

lemma accepts_Group:
  "accepts (Match (Group n r) # k) s = accepts (Match r # Close n s0 # k) s"
  by (simp add: accepts_Match accepts_Close)

lemma accepts_Star_Nil: "accepts (Match (Star a) # k) [] = accepts k []"
  by (auto simp: accepts_Match)

lemma accepts_Star_Cons:
  "accepts (Match (Star a) # k) (x # xs) =
     ((atom_ok a x \<and> accepts (Match (Star a) # k) xs) \<or> accepts k (x # xs))"
proof
  assume "accepts (Match (Star a) # k) (x # xs)"
  then obtain u v where uv: "x # xs = u @ v" "\<forall>y \<in> set u. atom_ok a y" "accepts k v"
    by (auto simp: accepts_Match)
  show "(atom_ok a x \<and> accepts (Match (Star a) # k) xs) \<or> accepts k (x # xs)"
  proof (cases u)
    case Nil
    with uv show ?thesis by simp
  next
    case (Cons y u')
    with uv have "atom_ok a x" "xs = u' @ v" "\<forall>y \<in> set u'. atom_ok a y" by auto
    with uv(3) show ?thesis by (auto simp: accepts_Match)
  qed
next
  assume "(atom_ok a x \<and> accepts (Match (Star a) # k) xs) \<or> accepts k (x # xs)"
  then show "accepts (Match (Star a) # k) (x # xs)"
  proof
    assume "atom_ok a x \<and> accepts (Match (Star a) # k) xs"
    then obtain u v where "atom_ok a x" "xs = u @ v" "\<forall>y \<in> set u. atom_ok a y" "accepts k v"
      by (auto simp: accepts_Match)
    then have "x # xs = (x # u) @ v \<and> x # u \<in> lang (Star a) \<and> accepts k v"
      by simp
    then show ?thesis unfolding accepts_Match by blast
  next
    assume "accepts k (x # xs)"
    then have "x # xs = [] @ (x # xs) \<and> [] \<in> lang (Star a) \<and> accepts k (x # xs)"
      by simp
    then show ?thesis unfolding accepts_Match by blast
  qed
qed

lemma accepts_Plus_Nil: "\<not> accepts (Match (Plus a) # k) []"
  by (auto simp: accepts_Match)

lemma accepts_Plus_Cons:
  "accepts (Match (Plus a) # k) (x # xs) = (atom_ok a x \<and> accepts (Match (Star a) # k) xs)"
proof
  assume "accepts (Match (Plus a) # k) (x # xs)"
  then obtain u v where uv: "x # xs = u @ v" "u \<noteq> []" "\<forall>y \<in> set u. atom_ok a y" "accepts k v"
    by (auto simp: accepts_Match)
  then obtain u' where "u = x # u'" by (cases u) auto
  with uv show "atom_ok a x \<and> accepts (Match (Star a) # k) xs"
    by (auto simp: accepts_Match)
next
  assume "atom_ok a x \<and> accepts (Match (Star a) # k) xs"
  then obtain u v where "atom_ok a x" "xs = u @ v" "\<forall>y \<in> set u. atom_ok a y" "accepts k v"
    by (auto simp: accepts_Match)
  then have "x # xs = (x # u) @ v \<and> x # u \<in> lang (Plus a) \<and> accepts k v"
    by simp
  then show "accepts (Match (Plus a) # k) (x # xs)"
    unfolding accepts_Match by blast
qed

lemma run_accepts: "run k s c \<noteq> None \<longleftrightarrow> accepts k s"
proof (induction k s c rule: run.induct)
  case (1 s c)
  show ?case by (simp add: accepts_Nil)
next
  case (2 n s0 k s c)
  then show ?case by (simp only: run.simps accepts_Close)
next
  case (3 p k s c)
  then show ?case by (simp add: accepts_Lit del: not_None_eq)
next
  case (4 r1 r2 k s c)
  then show ?case by (simp add: accepts_Seq del: not_None_eq)
next
  case (5 r1 r2 k s c)
  then show ?case by (cases "run (Match r1 # k) s c") (simp_all add: accepts_Alt del: not_None_eq)
next
  case (6 r k s c)
  then show ?case by (cases "run (Match r # k) s c") (simp_all add: accepts_Opt del: not_None_eq)
next
  case (7 a k c)
  then show ?case by (simp add: accepts_Star_Nil del: not_None_eq)
next
  case (8 a k x xs c)
  then show ?case
    by (cases "run (Match (Star a) # k) xs c")
       (simp_all add: accepts_Star_Cons del: not_None_eq)
next
  case (9 a k c)
  show ?case by (simp add: accepts_Plus_Nil)
next
  case (10 a k x xs c)
  then show ?case by (simp add: accepts_Plus_Cons del: not_None_eq)
next
  case (11 n r k s c)
  then show ?case by (simp add: accepts_Group [of n r k s s] del: not_None_eq)
qed

lemma exec_from_matches:
  "exec_from r s \<noteq> None \<longleftrightarrow> (\<exists>pre u post. s = pre @ u @ post \<and> u \<in> lang r)"
proof (induction s)
  case Nil
  have "run [Match (Group 0 r)] [] Map.empty \<noteq> None \<longleftrightarrow> accepts [Match (Group 0 r)] []"
    by (rule run_accepts)
  then show ?case by (simp add: accepts_Match accepts_Nil del: not_None_eq)
next
  case (Cons x xs)
  have here: "run [Match (Group 0 r)] (x # xs) Map.empty \<noteq> None
      \<longleftrightarrow> (\<exists>u post. x # xs = u @ post \<and> u \<in> lang r)"
    using run_accepts [of "[Match (Group 0 r)]" "x # xs" Map.empty]
    by (simp add: accepts_Match accepts_Nil del: not_None_eq)
  have split: "(\<exists>pre u post. x # xs = pre @ u @ post \<and> u \<in> lang r)
      \<longleftrightarrow> (\<exists>u post. x # xs = u @ post \<and> u \<in> lang r)
        \<or> (\<exists>pre u post. xs = pre @ u @ post \<and> u \<in> lang r)"
  proof
    assume "\<exists>pre u post. x # xs = pre @ u @ post \<and> u \<in> lang r"
    then obtain pre u post where d: "x # xs = pre @ u @ post" "u \<in> lang r" by blast
    show "(\<exists>u post. x # xs = u @ post \<and> u \<in> lang r)
        \<or> (\<exists>pre u post. xs = pre @ u @ post \<and> u \<in> lang r)"
    proof (cases pre)
      case Nil
      with d show ?thesis by auto
    next
      case (Cons y pre')
      with d have "xs = pre' @ u @ post" by simp
      with d(2) show ?thesis by blast
    qed
  next
    assume "(\<exists>u post. x # xs = u @ post \<and> u \<in> lang r)
        \<or> (\<exists>pre u post. xs = pre @ u @ post \<and> u \<in> lang r)"
    then show "\<exists>pre u post. x # xs = pre @ u @ post \<and> u \<in> lang r"
    proof
      assume "\<exists>u post. x # xs = u @ post \<and> u \<in> lang r"
      then obtain u post where "x # xs = [] @ u @ post" "u \<in> lang r" by auto
      then show ?thesis by blast
    next
      assume "\<exists>pre u post. xs = pre @ u @ post \<and> u \<in> lang r"
      then obtain pre u post where "x # xs = (x # pre) @ u @ post" "u \<in> lang r" by auto
      then show ?thesis by blast
    qed
  qed
  show ?case
  proof (cases "run [Match (Group 0 r)] (x # xs) Map.empty")
    case None
    then have e: "exec_from r (x # xs) = exec_from r xs" by simp
    from None here have "\<not> (\<exists>u post. x # xs = u @ post \<and> u \<in> lang r)" by simp
    then show ?thesis unfolding e Cons.IH split by blast
  next
    case (Some c)
    then have e: "exec_from r (x # xs) \<noteq> None" by simp
    from Some here have "\<exists>u post. x # xs = u @ post \<and> u \<in> lang r" by simp
    with e show ?thesis unfolding split by blast
  qed
qed

lemma match_iff_lang:
  "match s r \<noteq> None \<longleftrightarrow> (\<exists>pre u post. s = pre @ u @ post \<and> u \<in> lang r)"
  by (simp only: match_def exec_from_matches)

lemma lang_Seq_iff:
  "u \<in> lang (Seq r1 r2) \<longleftrightarrow> (\<exists>v w. u = v @ w \<and> v \<in> lang r1 \<and> w \<in> lang r2)"
  by auto

lemma lang_seqs10:
  "u \<in> lang (seqs [r1, r2, r3, r4, r5, r6, r7, r8, r9, r10]) \<longleftrightarrow>
     (\<exists>u1 u2 u3 u4 u5 u6 u7 u8 u9 u10.
        u = u1 @ u2 @ u3 @ u4 @ u5 @ u6 @ u7 @ u8 @ u9 @ u10 \<and>
        u1 \<in> lang r1 \<and> u2 \<in> lang r2 \<and> u3 \<in> lang r3 \<and> u4 \<in> lang r4 \<and> u5 \<in> lang r5 \<and>
        u6 \<in> lang r6 \<and> u7 \<in> lang r7 \<and> u8 \<in> lang r8 \<and> u9 \<in> lang r9 \<and> u10 \<in> lang r10)"
  unfolding seqs.simps lang_Seq_iff by fastforce

lemma lang_packageFile_re:
  "u \<in> lang packageFile_re \<longleftrightarrow>
     (\<exists>a b p d n e.
        u = a @ ''/packages'' @ b @ ''/'' @ p @ ''/src/'' @ d @ n @ ''.'' @ e \<and>
        a \<in> lang (Star Dot) \<and> b \<in> lang (Star Dot) \<and>
        p \<in> lang (Plus (NotChr (CHR ''/''))) \<and>
        d \<in> lang (Opt (Seq (Star Dot) (Lit ''/''))) \<and>
        n \<in> lang (Plus (NotChr (CHR ''/''))) \<and>
        e \<in> {''js'', ''tsx'', ''ts'', ''d.ts''})"
  (is "?L \<longleftrightarrow> ?R")
proof -
  have lit: "(w \<in> lang (Lit q)) = (w = q)" for w q by simp
  have grp: "lang (Group m r) = lang r" for m r by simp
  have opt: "lang (Opt (Group m r)) = lang (Opt r)" for m r by simp
  have ext: "lang (Alt (Lit ''js'') (Alt (Lit ''tsx'') (Alt (Lit ''ts'') (Lit ''d.ts''))))
    = {''js'', ''tsx'', ''ts'', ''d.ts''}"
    by (simp only: lang.simps) blast
  have "?L \<longleftrightarrow>
    (\<exists>u1 u2 u3 u4 u5 u6 u7 u8 u9 u10.
        u = u1 @ u2 @ u3 @ u4 @ u5 @ u6 @ u7 @ u8 @ u9 @ u10 \<and>
        u1 \<in> lang (Star Dot) \<and> u2 = ''/packages'' \<and> u3 \<in> lang (Star Dot) \<and> u4 = ''/'' \<and>
        u5 \<in> lang (Plus (NotChr (CHR ''/''))) \<and> u6 = ''/src/'' \<and>
        u7 \<in> lang (Opt (Seq (Star Dot) (Lit ''/''))) \<and>
        u8 \<in> lang (Plus (NotChr (CHR ''/''))) \<and> u9 = ''.'' \<and>
        u10 \<in> {''js'', ''tsx'', ''ts'', ''d.ts''})"
    (is "_ \<longleftrightarrow> ?M")
    unfolding packageFile_re_def lang_seqs10 lit grp opt ext ..
  also have "?M \<longleftrightarrow> ?R"
  proof
    assume ?M
    then obtain u1 u2 u3 u4 u5 u6 u7 u8 u9 u10 where m:
      "u = u1 @ u2 @ u3 @ u4 @ u5 @ u6 @ u7 @ u8 @ u9 @ u10"
      "u1 \<in> lang (Star Dot)" "u2 = ''/packages''" "u3 \<in> lang (Star Dot)" "u4 = ''/''"
      "u5 \<in> lang (Plus (NotChr (CHR ''/'')))" "u6 = ''/src/''"
      "u7 \<in> lang (Opt (Seq (Star Dot) (Lit ''/'')))"
      "u8 \<in> lang (Plus (NotChr (CHR ''/'')))" "u9 = ''.''"
      "u10 \<in> {''js'', ''tsx'', ''ts'', ''d.ts''}"
      by blast
    from m(1) have "u = u1 @ ''/packages'' @ u3 @ ''/'' @ u5 @ ''/src/'' @ u7 @ u8 @ ''.'' @ u10"
      unfolding m(3) m(5) m(7) m(10) .
    with m(2,4,6,8,9,11) show ?R by blast
  next
    assume ?R
    then obtain a b p d n e where r:
      "u = a @ ''/packages'' @ b @ ''/'' @ p @ ''/src/'' @ d @ n @ ''.'' @ e"
      "a \<in> lang (Star Dot)" "b \<in> lang (Star Dot)"
      "p \<in> lang (Plus (NotChr (CHR ''/'')))"
      "d \<in> lang (Opt (Seq (Star Dot) (Lit ''/'')))"
      "n \<in> lang (Plus (NotChr (CHR ''/'')))"
      "e \<in> {''js'', ''tsx'', ''ts'', ''d.ts''}"
      by blast
    show ?M
      by (rule exI [of _ a], rule exI [of _ "''/packages''"], rule exI [of _ b],
          rule exI [of _ "''/''"], rule exI [of _ p], rule exI [of _ "''/src/''"],
          rule exI [of _ d], rule exI [of _ n], rule exI [of _ "''.''"], rule exI [of _ e])
         (intro conjI r refl)
  qed
  finally show ?thesis .
qed

lemma packageFile_match_src:
  assumes "match s packageFile_re \<noteq> None"
  shows "sublist ''/packages'' s \<and> sublist ''/src/'' s"
proof -
  from assms obtain pre u post where s: "s = pre @ u @ post" and u: "u \<in> lang packageFile_re"
    unfolding match_iff_lang by blast
  from u obtain a b p d n e where
    "u = a @ ''/packages'' @ b @ ''/'' @ p @ ''/src/'' @ d @ n @ ''.'' @ e"
    unfolding lang_packageFile_re by blast
  with s have 1: "s = (pre @ a) @ ''/packages'' @ (b @ ''/'' @ p @ ''/src/'' @ d @ n @ ''.'' @ e @ post)"
    and 2: "s = (pre @ a @ ''/packages'' @ b @ ''/'' @ p) @ ''/src/'' @ (d @ n @ ''.'' @ e @ post)"
    by simp_all
  have "sublist ''/packages'' s" by (subst 1) (rule sublist_appendI)
  moreover have "sublist ''/src/'' s" by (subst 2) (rule sublist_appendI)
  ultimately show ?thesis ..
qed

section \<open>Claims\<close>

text \<open>
  C1. For every list of demos and every name, \<open>getApiPath\<close> returns \<^verbatim>\<open>null\<close> exactly when
  the list is empty. For a non-empty list it returns the first demo's \<open>demoPathname\<close> cut at
  the first \<^verbatim>\<open>#\<close>, followed by \<^verbatim>\<open>hooks-api\<close> when the name starts with \<^verbatim>\<open>use\<close> and
  \<^verbatim>\<open>components-api\<close> otherwise, followed by \<^verbatim>\<open>/#\<close> and the kebab-cased name. The two
  examples of the specification hold, the second for every \<open>kebabCase\<close> that turns
  \<^verbatim>\<open>useButton\<close> into \<^verbatim>\<open>use-button\<close>.
\<close>

theorem getApiPath_spec:
  "(getApiPath kebabCase demos nm = None \<longleftrightarrow> demos = []) \<and>
   getApiPath kebabCase (d # ds) nm =
     Some (takeWhile (\<lambda>c. c \<noteq> CHR ''#'') (demoPathname d)
           @ (if prefix ''use'' nm then ''hooks-api'' else ''components-api'')
           @ ''/#'' @ kebabCase nm) \<and>
   getApiPath kebabCase [] ''useButton'' = None \<and>
   (kebabCase ''useButton'' = ''use-button'' \<longrightarrow>
    getApiPath kebabCase [\<lparr>demoPageTitle = ''t'', demoPathname = ''/docs/button/#hooks''\<rparr>]
      ''useButton'' = Some ''/docs/button/hooks-api/#use-button'')"
proof -
  have first: "interpolate_at (split s (CHR ''#'')) 0 = takeWhile (\<lambda>c. c \<noteq> CHR ''#'') s" for s
    using split_nonempty [of s "CHR ''#''"] hd_split [of s "CHR ''#''"]
    by (cases "split s (CHR ''#'')") (simp_all add: interpolate_at_def)
  have gen: "getApiPath kebabCase (e # es) n =
     Some (takeWhile (\<lambda>c. c \<noteq> CHR ''#'') (demoPathname e)
           @ (if prefix ''use'' n then ''hooks-api'' else ''components-api'')
           @ ''/#'' @ kebabCase n)" for e es n
    by (simp add: getApiPath_def first startsWith_def)
  have none: "getApiPath kebabCase demos nm = None \<longleftrightarrow> demos = []"
    by (cases demos) (simp_all add: getApiPath_def)
  have ex1: "getApiPath kebabCase [] ''useButton'' = None"
    by (simp add: getApiPath_def)
  have ex2: "kebabCase ''useButton'' = ''use-button'' \<longrightarrow>
    getApiPath kebabCase [\<lparr>demoPageTitle = ''t'', demoPathname = ''/docs/button/#hooks''\<rparr>]
      ''useButton'' = Some ''/docs/button/hooks-api/#use-button''"
    by (simp add: gen)
  from none gen ex1 ex2 show ?thesis by blast
qed

text \<open>The example of C1 with \<open>kebab_camel\<close> for \<open>kebabCase\<close>.\<close>

theorem getApiPath_spec_witness:
  "kebab_camel ''useButton'' = ''use-button'' \<and>
   getApiPath kebab_camel [\<lparr>demoPageTitle = ''t'', demoPathname = ''/docs/button/#hooks''\<rparr>]
     ''useButton'' = Some ''/docs/button/hooks-api/#use-button''"
proof -
  have k: "kebab_camel ''useButton'' = ''use-button''" by code_simp
  with getApiPath_spec [of kebab_camel "[]" "[]"] show ?thesis by blast
qed

text \<open>
  C3. \<open>getMuiName name\<close> is \<^verbatim>\<open>Mui\<close> followed by the name without the first occurrence of
  \<^verbatim>\<open>Styled\<close>: a name without \<^verbatim>\<open>Styled\<close> is only prefixed, and in a name
  \<open>pre @ ''Styled'' @ post\<close> whose first occurrence of \<^verbatim>\<open>Styled\<close> is the one shown, that
  occurrence alone is removed, wherever it is. \<^verbatim>\<open>StyledButton\<close> and \<^verbatim>\<open>Button\<close> both give
  \<^verbatim>\<open>MuiButton\<close>.
\<close>

theorem getMuiName_spec:
  "(\<not> sublist ''Styled'' nm \<longrightarrow> getMuiName nm = ''Mui'' @ nm) \<and>
   (\<not> sublist ''Styled'' (pre @ ''Style'') \<longrightarrow>
      getMuiName (pre @ ''Styled'' @ post) = ''Mui'' @ pre @ post) \<and>
   getMuiName ''StyledButton'' = ''MuiButton'' \<and>
   getMuiName ''Button'' = ''MuiButton''"
proof -
  have a: "\<not> sublist ''Styled'' nm \<longrightarrow> getMuiName nm = ''Mui'' @ nm"
    by (simp add: getMuiName_def replace_absent)
  have b: "\<not> sublist ''Styled'' (pre @ ''Style'') \<longrightarrow>
      getMuiName (pre @ ''Styled'' @ post) = ''Mui'' @ pre @ post"
    using replace_first_occurrence [of "''Styled''" pre post "''''"]
    by (simp add: getMuiName_def)
  have c: "getMuiName ''StyledButton'' = ''MuiButton''"
    by (simp add: getMuiName_def replace_def)
  have d: "getMuiName ''Button'' = ''MuiButton''"
    by (simp add: getMuiName_def replace_def)
  from a b c d show ?thesis by blast
qed

text \<open>C3 at \<^verbatim>\<open>Button\<close> and at \<^verbatim>\<open>MyStyledStyledBox\<close>, where the second \<^verbatim>\<open>Styled\<close> stays.\<close>

theorem getMuiName_spec_witness:
  "\<not> sublist ''Styled'' ''Button'' \<and> getMuiName ''Button'' = ''Mui'' @ ''Button'' \<and>
   \<not> sublist ''Styled'' (''My'' @ ''Style'') \<and>
   getMuiName (''My'' @ ''Styled'' @ ''StyledBox'') = ''Mui'' @ ''My'' @ ''StyledBox''"
proof -
  have h1: "\<not> sublist ''Styled'' ''Button''" by (simp add: sublist_Cons_right)
  have h2: "\<not> sublist ''Styled'' (''My'' @ ''Style'')" by (simp add: sublist_Cons_right)
  from h1 h2 getMuiName_spec [of "''Button''" "''My''" "''StyledBox''"] show ?thesis by blast
qed

text \<open>
  C5. For every pathname that starts with none of \<^verbatim>\<open>/material\<close>, \<^verbatim>\<open>/joy\<close> and \<^verbatim>\<open>/base\<close>,
  \<open>fixPathname\<close> returns the pathname with the first occurrence of \<^verbatim>\<open>/components/\<close>
  replaced by \<^verbatim>\<open>/react-\<close> and one \<^verbatim>\<open>/\<close> appended: the pathname and \<^verbatim>\<open>/\<close> when there is
  no occurrence, and \<open>pre @ ''/react-'' @ post @ ''/''\<close> when the pathname is
  \<open>pre @ ''/components/'' @ post\<close> with no earlier occurrence. \<open>replaceComponentLinks\<close> is
  not applied.
\<close>

theorem fixPathname_other:
  assumes "\<not> prefix ''/material'' p" "\<not> prefix ''/joy'' p" "\<not> prefix ''/base'' p"
  shows "fixPathname rcl p = replace p ''/components/'' ''/react-'' @ ''/'' \<and>
         (\<not> sublist ''/components/'' p \<longrightarrow> fixPathname rcl p = p @ ''/'') \<and>
         (p = pre @ ''/components/'' @ post \<and>
            \<not> sublist ''/components/'' (pre @ ''/components'') \<longrightarrow>
          fixPathname rcl p = pre @ ''/react-'' @ post @ ''/'')"
proof -
  have a: "fixPathname rcl p = replace p ''/components/'' ''/react-'' @ ''/''"
    using assms by (simp add: fixPathname_def startsWith_def)
  have b: "\<not> sublist ''/components/'' p \<longrightarrow> fixPathname rcl p = p @ ''/''"
    by (simp add: a replace_absent)
  have c: "p = pre @ ''/components/'' @ post \<and>
            \<not> sublist ''/components/'' (pre @ ''/components'') \<longrightarrow>
          fixPathname rcl p = pre @ ''/react-'' @ post @ ''/''"
  proof (intro impI; elim conjE)
    assume p: "p = pre @ ''/components/'' @ post"
      and ns: "\<not> sublist ''/components/'' (pre @ ''/components'')"
    have "replace (pre @ ''/components/'' @ post) ''/components/'' ''/react-''
            = pre @ ''/react-'' @ post"
      using ns by (intro replace_first_occurrence) simp_all
    with a show "fixPathname rcl p = pre @ ''/react-'' @ post @ ''/''"
      unfolding p by simp
  qed
  from a b c show ?thesis by blast
qed

text \<open>C5 at \<^verbatim>\<open>/system/components/Box\<close>.\<close>

theorem fixPathname_other_witness:
  "\<not> prefix ''/material'' ''/system/components/Box'' \<and>
   \<not> prefix ''/joy'' ''/system/components/Box'' \<and>
   \<not> prefix ''/base'' ''/system/components/Box'' \<and>
   \<not> sublist ''/components/'' (''/system'' @ ''/components'') \<and>
   fixPathname id ''/system/components/Box'' = ''/system/react-Box/''"
proof -
  have h: "\<not> prefix ''/material'' ''/system/components/Box''"
    "\<not> prefix ''/joy'' ''/system/components/Box''"
    "\<not> prefix ''/base'' ''/system/components/Box''"
    by simp_all
  have s: "\<not> sublist ''/components/'' (''/system'' @ ''/components'')"
    by (simp add: sublist_Cons_right)
  note t = fixPathname_other [OF h, of id "''/system''" "''Box''"]
  from t [THEN conjunct2, THEN conjunct2] s
  have "fixPathname id ''/system/components/Box'' = ''/system/react-Box/''" by simp
  with h s show ?thesis by blast
qed

text \<open>
  C2, as stated, fails. The pattern matches \<^verbatim>\<open>/repo/packages/box-utils/src/Box.tsx\<close> with
  the package directory \<^verbatim>\<open>box-utils\<close>, which does not begin with \<^verbatim>\<open>x-\<close>; yet
  \<open>muiPackage\<close> is \<^verbatim>\<open>bomui-utils\<close>, since \<^verbatim>\<open>replace('x-', 'mui-')\<close> rewrites the first
  \<^verbatim>\<open>x-\<close> wherever it is.
\<close>

theorem extractPackageFile_muiPackage_counterexample:
  "match (replace_sep Posix ''/repo/packages/box-utils/src/Box.tsx'') packageFile_re \<noteq> None \<and>
   packagePath (extractPackageFile Posix ''/repo/packages/box-utils/src/Box.tsx'')
     = JString ''box-utils'' \<and>
   \<not> prefix ''x-'' ''box-utils'' \<and>
   muiPackage (extractPackageFile Posix ''/repo/packages/box-utils/src/Box.tsx'')
     = JString ''bomui-utils'' \<and>
   muiPackage (extractPackageFile Posix ''/repo/packages/box-utils/src/Box.tsx'')
     \<noteq> packagePath (extractPackageFile Posix ''/repo/packages/box-utils/src/Box.tsx'')"
  by (simp add: extractPackageFile_def replace_sep_def packageFile_re_def match_def group_def
      replace_def)

text \<open>
  C2, amended. For every platform and every file path on which the pattern matches,
  \<open>packagePath\<close> is a string and \<open>muiPackage\<close> is that string with its first occurrence
  of \<^verbatim>\<open>x-\<close> replaced by \<^verbatim>\<open>mui-\<close>. When the package directory begins with \<^verbatim>\<open>x-\<close>, this
  is \<^verbatim>\<open>mui-\<close> followed by the rest of the directory name; when it contains no \<^verbatim>\<open>x-\<close> at
  all, \<open>muiPackage\<close> is the directory name unchanged.
\<close>

theorem extractPackageFile_muiPackage:
  assumes "match (replace_sep os filePath) packageFile_re \<noteq> None"
  shows "\<exists>p. packagePath (extractPackageFile os filePath) = JString p \<and>
             muiPackage (extractPackageFile os filePath) = JString (replace p ''x-'' ''mui-'') \<and>
             (prefix ''x-'' p \<longrightarrow>
                muiPackage (extractPackageFile os filePath) = JString (''mui-'' @ drop 2 p)) \<and>
             (\<not> sublist ''x-'' p \<longrightarrow> muiPackage (extractPackageFile os filePath) = JString p)"
proof -
  from assms obtain c where c: "match (replace_sep os filePath) packageFile_re = Some c"
    by auto
  from packageFile_groups [OF c] obtain p n where pn: "c 1 = Some p" "c 3 = Some n"
    by auto
  have pp: "packagePath (extractPackageFile os filePath) = JString p"
    using c pn by (simp add: extractPackageFile_def group_def)
  have mp: "muiPackage (extractPackageFile os filePath) = JString (replace p ''x-'' ''mui-'')"
    using c pn by (simp add: extractPackageFile_def group_def)
  have lead: "prefix ''x-'' p \<longrightarrow> replace p ''x-'' ''mui-'' = ''mui-'' @ drop 2 p"
    using replace_prefix [of "''x-''" p "''mui-''"] by (simp add: numeral_2_eq_2)
  have absent: "\<not> sublist ''x-'' p \<longrightarrow> replace p ''x-'' ''mui-'' = p"
    by (simp add: replace_absent)
  from pp mp lead absent show ?thesis by simp
qed

text \<open>The amended C2 at the example of the specification: \<^verbatim>\<open>x-data-grid\<close> gives \<^verbatim>\<open>mui-data-grid\<close>.\<close>

theorem extractPackageFile_muiPackage_witness:
  "match (replace_sep Posix ''/repo/packages/x-data-grid/src/DataGrid/DataGrid.tsx'')
     packageFile_re \<noteq> None \<and>
   packagePath (extractPackageFile Posix ''/repo/packages/x-data-grid/src/DataGrid/DataGrid.tsx'')
     = JString ''x-data-grid'' \<and>
   prefix ''x-'' ''x-data-grid'' \<and>
   muiPackage (extractPackageFile Posix ''/repo/packages/x-data-grid/src/DataGrid/DataGrid.tsx'')
     = JString ''mui-data-grid''"
proof -
  have m: "match (replace_sep Posix ''/repo/packages/x-data-grid/src/DataGrid/DataGrid.tsx'')
     packageFile_re \<noteq> None"
    by (simp add: replace_sep_def packageFile_re_def match_def)
  have pp: "packagePath
      (extractPackageFile Posix ''/repo/packages/x-data-grid/src/DataGrid/DataGrid.tsx'')
     = JString ''x-data-grid''"
    by (simp add: extractPackageFile_def replace_sep_def packageFile_re_def match_def group_def)
  from extractPackageFile_muiPackage [OF m] pp m show ?thesis by auto
qed

text \<open>
  C7. For every platform and every file path on which the pattern does not match,
  \<open>extractPackageFile\<close> returns \<open>packagePath\<close> \<^verbatim>\<open>null\<close>, \<open>name\<close> \<^verbatim>\<open>null\<close> and \<open>muiPackage\<close>
  \<^verbatim>\<open>undefined\<close>; the function has no failing branch. Every path that, with its separators
  replaced, lacks \<^verbatim>\<open>/packages\<close> or \<^verbatim>\<open>/src/\<close> is such a path, and so is
  \<^verbatim>\<open>/no/match/here.ts\<close> on both platforms.
\<close>

theorem extractPackageFile_no_match:
  "(match (replace_sep os filePath) packageFile_re = None \<longrightarrow>
      extractPackageFile os filePath
        = \<lparr>packagePath = JNull, name = JNull, muiPackage = JUndefined\<rparr>) \<and>
   (\<not> sublist ''/packages'' (replace_sep os filePath) \<or>
    \<not> sublist ''/src/'' (replace_sep os filePath) \<longrightarrow>
      extractPackageFile os filePath
        = \<lparr>packagePath = JNull, name = JNull, muiPackage = JUndefined\<rparr>) \<and>
   extractPackageFile os ''/no/match/here.ts''
     = \<lparr>packagePath = JNull, name = JNull, muiPackage = JUndefined\<rparr>"
proof -
  have a: "match (replace_sep os p) packageFile_re = None \<longrightarrow>
      extractPackageFile os p
        = \<lparr>packagePath = JNull, name = JNull, muiPackage = JUndefined\<rparr>" for p
    by (simp add: extractPackageFile_def)
  have b: "\<not> sublist ''/packages'' (replace_sep os filePath) \<or>
    \<not> sublist ''/src/'' (replace_sep os filePath) \<longrightarrow>
      extractPackageFile os filePath
        = \<lparr>packagePath = JNull, name = JNull, muiPackage = JUndefined\<rparr>"
    using a [of filePath] packageFile_match_src [of "replace_sep os filePath"] by blast
  have "\<not> sublist ''/src/'' (replace_sep os ''/no/match/here.ts'')"
    by (cases os) (simp_all add: replace_sep_def sublist_Cons_right)
  then have c: "extractPackageFile os ''/no/match/here.ts''
     = \<lparr>packagePath = JNull, name = JNull, muiPackage = JUndefined\<rparr>"
    using a [of "''/no/match/here.ts''"] packageFile_match_src [of "replace_sep os ''/no/match/here.ts''"]
    by blast
  from a [of filePath] b c show ?thesis by blast
qed

text \<open>C7 at a path without \<^verbatim>\<open>/src/\<close>, on which the pattern does not match.\<close>

theorem extractPackageFile_no_match_witness:
  "match (replace_sep Win32 ''C:/no/match/here.ts'') packageFile_re = None \<and>
   \<not> sublist ''/src/'' (replace_sep Win32 ''C:/no/match/here.ts'') \<and>
   extractPackageFile Win32 ''C:/no/match/here.ts''
     = \<lparr>packagePath = JNull, name = JNull, muiPackage = JUndefined\<rparr>"
proof -
  have m: "match (replace_sep Win32 ''C:/no/match/here.ts'') packageFile_re = None"
    by (simp add: replace_sep_def packageFile_re_def match_def)
  have n: "\<not> sublist ''/src/'' (replace_sep Win32 ''C:/no/match/here.ts'')"
    by (simp add: replace_sep_def sublist_Cons_right)
  from m n extractPackageFile_no_match [of Win32 "''C:/no/match/here.ts''"] show ?thesis
    by blast
qed

text \<open>
  C4. For every filename and every text read from it, \<open>parseFile\<close> returns a record whose
  \<open>shouldSkip\<close> is true if and only if the filename contains \<^verbatim>\<open>internal\<close> or the text
  contains one of \<^verbatim>\<open>@ignore - internal component.\<close>, \<^verbatim>\<open>@ignore - internal hook.\<close> and
  \<^verbatim>\<open>@ignore - do not document.\<close>
\<close>

theorem parseFile_shouldSkip:
  assumes "fs filename = Some text"
  shows "\<exists>r. parseFile getLineFeed fs filename = Inr r \<and> src r = text \<and>
             (shouldSkip r \<longleftrightarrow>
                sublist ''internal'' filename \<or>
                sublist ''@ignore - internal component.'' text \<or>
                sublist ''@ignore - internal hook.'' text \<or>
                sublist ''@ignore - do not document.'' text)"
  using assms
  by (simp add: parseFile_def readFileSync_def indexOf_found match_Lit del: not_None_eq)

text \<open>C4 at a file whose text is \<^verbatim>\<open>// @ignore - internal component.\<close>: \<open>shouldSkip\<close> is true.\<close>

theorem parseFile_shouldSkip_witness:
  "(Map.empty(''Button.js'' \<mapsto> ''// @ignore - internal component.'')) ''Button.js''
     = Some ''// @ignore - internal component.'' \<and>
   (\<exists>r. parseFile id (Map.empty(''Button.js'' \<mapsto> ''// @ignore - internal component.''))
          ''Button.js'' = Inr r \<and> shouldSkip r)"
proof -
  have h: "(Map.empty(''Button.js'' \<mapsto> ''// @ignore - internal component.'')) ''Button.js''
     = Some ''// @ignore - internal component.''"
    by simp
  have s: "sublist ''@ignore - internal component.'' ''// @ignore - internal component.''"
    by (simp add: sublist_Cons_right)
  from parseFile_shouldSkip [of "Map.empty(''Button.js'' \<mapsto> ''// @ignore - internal component.'')"
      "''Button.js''" "''// @ignore - internal component.''" id] s h
  show ?thesis by blast
qed

text \<open>
  C6. For every filename, data and configuration path, when resolving the configuration
  yields \<^verbatim>\<open>null\<close>, \<open>writePrettifiedFile\<close> throws an \<^verbatim>\<open>Error\<close> whose message contains the
  filename and the configuration path, and the filesystem is left as it was, whatever
  \<^verbatim>\<open>fs.writeFileSync\<close> and the write options are.
\<close>

theorem writePrettifiedFile_no_config:
  assumes "resolveConfig_sync filename (case arg of None \<Rightarrow> dflt | Some p \<Rightarrow> p) = Inr None"
  shows "\<exists>msg. writePrettifiedFile resolveConfig_sync format writeFileSync dflt filename data
                   arg options_arg fs
                 = (Inl (Error msg), fs) \<and>
               msg = ''Could not resolve config for '' @ [CHR 0x27] @ filename @ [CHR 0x27]
                     @ '' using prettier config path '' @ [CHR 0x27]
                     @ (case arg of None \<Rightarrow> dflt | Some p \<Rightarrow> p) @ [CHR 0x27] @ ''.'' \<and>
               sublist filename msg \<and>
               sublist (case arg of None \<Rightarrow> dflt | Some p \<Rightarrow> p) msg"
proof -
  let ?cfg = "case arg of None \<Rightarrow> dflt | Some p \<Rightarrow> p"
  let ?msg = "''Could not resolve config for '' @ [CHR 0x27] @ filename @ [CHR 0x27]
                     @ '' using prettier config path '' @ [CHR 0x27] @ ?cfg @ [CHR 0x27] @ ''.''"
  have w: "writePrettifiedFile resolveConfig_sync format writeFileSync dflt filename data
             arg options_arg fs
             = (Inl (Error ?msg), fs)"
    using assms by (simp add: writePrettifiedFile_def)
  have f: "sublist filename ?msg"
    by (rule sublist_appendI [of filename "''Could not resolve config for '' @ [CHR 0x27]",
          simplified append_assoc])
  have "?msg = (''Could not resolve config for '' @ [CHR 0x27] @ filename @ [CHR 0x27]
                     @ '' using prettier config path '' @ [CHR 0x27]) @ ?cfg @ ([CHR 0x27] @ ''.'')"
    by simp
  moreover have "sublist ?cfg ((''Could not resolve config for '' @ [CHR 0x27] @ filename
                     @ [CHR 0x27] @ '' using prettier config path '' @ [CHR 0x27])
                     @ ?cfg @ ([CHR 0x27] @ ''.''))"
    by (rule sublist_appendI)
  ultimately have c: "sublist ?cfg ?msg" by (simp only:)
  from w f c show ?thesis by blast
qed

text \<open>C6 at a configuration path that does not resolve: the file keeps its old text.\<close>

theorem writePrettifiedFile_no_config_witness:
  "(\<lambda>f p. if p = ''cwd/prettier.config.js'' then Inr (Some ()) else Inr None :: error + unit option)
      ''docs/api.json''
      (case Some ''missing.config.js'' of None \<Rightarrow> ''cwd/prettier.config.js'' | Some p \<Rightarrow> p)
     = Inr None \<and>
   writePrettifiedFile
      (\<lambda>f p. if p = ''cwd/prettier.config.js'' then Inr (Some ()) else Inr None)
      (\<lambda>d c f. Inr d)
      (\<lambda>fs f d opts. (Inr (), fs(f \<mapsto> d)))
      ''cwd/prettier.config.js'' ''docs/api.json'' ''{}'' (Some ''missing.config.js'') None
      (Map.empty(''docs/api.json'' \<mapsto> ''old''))
     = (Inl (Error (''Could not resolve config for '' @ [CHR 0x27] @ ''docs/api.json''
           @ [CHR 0x27] @ '' using prettier config path '' @ [CHR 0x27] @ ''missing.config.js''
           @ [CHR 0x27] @ ''.'')),
        Map.empty(''docs/api.json'' \<mapsto> ''old''))"
proof -
  have h: "(\<lambda>f p. if p = ''cwd/prettier.config.js'' then Inr (Some ()) else Inr None :: error + unit option)
      ''docs/api.json''
      (case Some ''missing.config.js'' of None \<Rightarrow> ''cwd/prettier.config.js'' | Some p \<Rightarrow> p)
     = Inr None"
    by simp
  from writePrettifiedFile_no_config
    [where resolveConfig_sync =
        "\<lambda>f p. if p = ''cwd/prettier.config.js'' then Inr (Some ()) else Inr None"
      and filename = "''docs/api.json''" and arg = "Some ''missing.config.js''"
      and dflt = "''cwd/prettier.config.js''" and format = "\<lambda>d c f. Inr d"
      and writeFileSync = "\<lambda>fs f d opts. (Inr (), fs(f \<mapsto> d))" and options_arg = None
      and data = "''{}''" and fs = "Map.empty(''docs/api.json'' \<mapsto> ''old'')"] h
  show ?thesis by auto
qed

text \<open>
  C10, as stated, fails. The first segment of \<^verbatim>\<open>/basement/base/components/Chip\<close> merely
  begins with \<^verbatim>\<open>base\<close> and the \<^verbatim>\<open>/base\<close> branch runs, but its replacement of \<^verbatim>\<open>/base/\<close>
  is not a no-op: it rewrites the later segment, and the result is
  \<^verbatim>\<open>/basement/base-ui/react-Chip/\<close>, not \<^verbatim>\<open>/basement/base/react-Chip/\<close>.
\<close>

theorem fixPathname_base_prefix_counterexample:
  "prefix ''/base'' ''/basement/base/components/Chip'' \<and>
   \<not> prefix ''/base/'' ''/basement/base/components/Chip'' \<and>
   replace ''/basement/base/components/Chip'' ''/base/'' ''/base-ui/''
     \<noteq> ''/basement/base/components/Chip'' \<and>
   fixPathname id ''/basement/base/components/Chip'' = ''/basement/base-ui/react-Chip/'' \<and>
   replace ''/basement/base/components/Chip'' ''/components/'' ''/react-'' @ ''/''
     = ''/basement/base/react-Chip/'' \<and>
   fixPathname id ''/basement/base/components/Chip''
     \<noteq> replace ''/basement/base/components/Chip'' ''/components/'' ''/react-'' @ ''/''"
  by (simp add: fixPathname_def startsWith_def replace_def)

text \<open>
  C10, amended. \<open>fixPathname\<close> selects its branch by a test on the raw prefix, not on
  whole segments. Every pathname that starts with \<^verbatim>\<open>/base\<close> takes the \<^verbatim>\<open>/base\<close> branch: the
  result is the pathname with its first \<^verbatim>\<open>/base/\<close> replaced by \<^verbatim>\<open>/base-ui/\<close>, then its
  first \<^verbatim>\<open>/components/\<close> replaced by \<^verbatim>\<open>/react-\<close>, and a \<^verbatim>\<open>/\<close> appended; so
  \<^verbatim>\<open>/basement/base/components/Chip\<close> gives \<^verbatim>\<open>/basement/base-ui/react-Chip/\<close>. When the
  pathname contains no \<^verbatim>\<open>/base/\<close>, the first replacement is a no-op and the result is
  the pathname with the first \<^verbatim>\<open>/components/\<close> replaced by \<^verbatim>\<open>/react-\<close> and a \<^verbatim>\<open>/\<close>
  appended, as for \<^verbatim>\<open>/basement/components/Chip\<close>. Every pathname \<^verbatim>\<open>/material\<close> followed
  by any text takes the first branch and every pathname \<^verbatim>\<open>/joy\<close> followed by any text
  takes the second, whether or not the prefix ends a segment.
\<close>

theorem fixPathname_raw_prefix:
  "(prefix ''/base'' p \<longrightarrow>
      fixPathname rcl p
        = replace (replace p ''/base/'' ''/base-ui/'') ''/components/'' ''/react-'' @ ''/'') \<and>
   (prefix ''/base'' q \<and> \<not> sublist ''/base/'' q \<longrightarrow>
      replace q ''/base/'' ''/base-ui/'' = q \<and>
      fixPathname rcl q = replace q ''/components/'' ''/react-'' @ ''/'') \<and>
   fixPathname rcl ''/basement/base/components/Chip'' = ''/basement/base-ui/react-Chip/'' \<and>
   fixPathname rcl ''/basement/components/Chip'' = ''/basement/react-Chip/'' \<and>
   fixPathname rcl (''/material'' @ rest) = rcl (rest @ ''/'') \<and>
   fixPathname rcl (''/joy'' @ rest) = replace (rcl (rest @ ''/'')) ''material-ui'' ''joy-ui''"
proof -
  have nm: "\<not> prefix ''/material'' s" if "prefix ''/base'' s" for s
    using that by (auto simp: prefix_def)
  have nj: "\<not> prefix ''/joy'' s" if "prefix ''/base'' s" for s
    using that by (auto simp: prefix_def)
  have g: "prefix ''/base'' s \<longrightarrow>
      fixPathname rcl s
        = replace (replace s ''/base/'' ''/base-ui/'') ''/components/'' ''/react-'' @ ''/''" for s
    using nm [of s] nj [of s] by (auto simp: fixPathname_def startsWith_def)
  have a: "prefix ''/base'' q \<and> \<not> sublist ''/base/'' q \<longrightarrow>
      replace q ''/base/'' ''/base-ui/'' = q \<and>
      fixPathname rcl q = replace q ''/components/'' ''/react-'' @ ''/''"
    using g [of q] by (auto simp: replace_absent)
  have e: "fixPathname rcl ''/basement/base/components/Chip'' = ''/basement/base-ui/react-Chip/''"
    by (simp add: fixPathname_def startsWith_def replace_def)
  have b: "fixPathname rcl ''/basement/components/Chip'' = ''/basement/react-Chip/''"
    by (simp add: fixPathname_def startsWith_def replace_def)
  have c: "fixPathname rcl (''/material'' @ rest) = rcl (rest @ ''/'')"
    by (simp add: fixPathname_def startsWith_def replace_anchored_def)
  have d: "fixPathname rcl (''/joy'' @ rest)
             = replace (rcl (rest @ ''/'')) ''material-ui'' ''joy-ui''"
    by (simp add: fixPathname_def startsWith_def replace_anchored_def)
  from g [of p] a e b c d show ?thesis by blast
qed

text \<open>
  The amended C10 at \<^verbatim>\<open>/basements/base/x\<close>, \<^verbatim>\<open>/basement/components/Chip\<close>,
  \<^verbatim>\<open>/materials/icons\<close> and \<^verbatim>\<open>/joyful/material-ui/x\<close>, with the identity for
  \<open>replaceComponentLinks\<close>.
\<close>

theorem fixPathname_raw_prefix_witness:
  "prefix ''/base'' ''/basements/base/x'' \<and>
   fixPathname id ''/basements/base/x'' = ''/basements/base-ui/x/'' \<and>
   prefix ''/base'' ''/basement/components/Chip'' \<and>
   \<not> sublist ''/base/'' ''/basement/components/Chip'' \<and>
   fixPathname id ''/basement/components/Chip''
     = replace ''/basement/components/Chip'' ''/components/'' ''/react-'' @ ''/'' \<and>
   fixPathname id (''/material'' @ ''s/icons'') = ''s/icons/'' \<and>
   fixPathname id (''/joy'' @ ''ful/material-ui/x'') = ''ful/joy-ui/x/''"
proof -
  have h0: "prefix ''/base'' ''/basements/base/x''" by simp
  have h: "prefix ''/base'' ''/basement/components/Chip''"
    "\<not> sublist ''/base/'' ''/basement/components/Chip''"
    by (simp_all add: sublist_Cons_right)
  have r0: "replace (replace ''/basements/base/x'' ''/base/'' ''/base-ui/'')
              ''/components/'' ''/react-'' @ ''/'' = ''/basements/base-ui/x/''"
    by (simp add: replace_def)
  have r: "replace ''ful/material-ui/x/'' ''material-ui'' ''joy-ui'' = ''ful/joy-ui/x/''"
    by (simp add: replace_def)
  note t = fixPathname_raw_prefix
    [of "''/basements/base/x''" id "''/basement/components/Chip''" "''s/icons''"]
  from t [THEN conjunct1] h0 r0
  have 0: "fixPathname id ''/basements/base/x'' = ''/basements/base-ui/x/''"
    by simp
  from t [THEN conjunct2, THEN conjunct1] h
  have 1: "fixPathname id ''/basement/components/Chip''
     = replace ''/basement/components/Chip'' ''/components/'' ''/react-'' @ ''/''"
    by simp
  from t have 2: "fixPathname id (''/material'' @ ''s/icons'') = ''s/icons/''"
    by simp
  from fixPathname_raw_prefix
    [of "''/basements/base/x''" id "''/basement/components/Chip''" "''ful/material-ui/x''"] r
  have 3: "fixPathname id (''/joy'' @ ''ful/material-ui/x'') = ''ful/joy-ui/x/''"
    by simp
  from h0 h 0 1 2 3 show ?thesis by blast
qed



end
